theory Spec2Isabelle
  imports Main "HOL-Library.Word"
begin

section \<open>An intrusive reference-counted pointer (intrusive\_ptr.h)\<close>

text \<open>
  The header defines two cooperating pieces: the mixin \<open>intrusive_ref_counter\<close>, which
  embeds a counter in the pointee, and the owning handle \<open>intrusive_ptr\<close>, which stores a
  raw address and calls the free functions \<open>intrusive_ptr_add_ref\<close> and
  \<open>intrusive_ptr_release\<close>.

  The embedding is shallow and explicit about memory. A program state holds
  \<^item> the handle objects that are alive, by the place they live in (a named variable, or
    the one unnamed temporary an assignment or a reset builds);
  \<^item> the heap of counted objects, by address; an address the heap does not map is not
    (or no longer) an object;
  \<^item> the trace of \<open>delete\<close> expressions that ran, with the static type they ran through.

  Integer widths are those of the LP64 and LLP64 data models: \<open>size_t\<close> has 64 bits and
  \<open>unsigned int\<close> has 32. Both wrap around, as unsigned arithmetic in C++ does.
  What C++ leaves undefined (a read through a null or dangling address, a second
  \<open>delete\<close>, a member call on a handle outside its lifetime) is an error value.
\<close>

subsection \<open>Data\<close>

type_synonym size_t = "64 word"
type_synonym unsigned_int = "32 word"
type_synonym addr = nat

abbreviation (input) nullptr :: addr where
  "nullptr \<equiv> 0"

text \<open>
  \<open>intrusive_ref_counter<Derived>\<close>: its only data member is
  \<open>mutable std::atomic<size_t> ref_count{0}\<close>. A class that derives from the mixin is an
  extension of this record.
\<close>

record intrusive_ref_counter =
  ref_count :: size_t

text \<open>A counted class with members of its own: \<open>struct Derived : intrusive_ref_counter<Derived>\<close>.\<close>

record 'a derived = intrusive_ref_counter +
  payload :: 'a

text \<open>\<open>intrusive_ptr<T>\<close>: its only data member is \<open>T* ptr{nullptr}\<close>.\<close>

record intrusive_ptr =
  ptr :: addr

text \<open>
  Where a handle object lives: in a variable of the program, or in the temporary that
  \<open>operator=\<close> and \<open>reset\<close> construct, swap with \<open>*this\<close> and destroy at the end of the
  full expression.
\<close>

datatype hid = Var nat | Tmp

text \<open>
  The static type of the operand of a \<open>delete\<close> expression: a pointer to the mixin
  base, or a pointer to the class derived from it. With the mixin's non-virtual
  destructor, the static type decides which destructor the expression names.
\<close>

datatype static_type = Static_mixin | Static_derived

datatype error =
    Null_dereference
  | Use_after_free
  | Double_delete
  | Dead_handle

record 'z state =
  handles :: "hid \<rightharpoonup> intrusive_ptr"
  heap :: "addr \<rightharpoonup> 'z intrusive_ref_counter_scheme"
  deleted :: "(addr \<times> static_type) list"

text \<open>Sequencing of steps that may fail: the first error ends the run.\<close>

definition and_then :: "error + 'a \<Rightarrow> ('a \<Rightarrow> error + 'b) \<Rightarrow> error + 'b" where
  "and_then r f = (case r of Inl e \<Rightarrow> Inl e | Inr x \<Rightarrow> f x)"

subsection \<open>The counted-object mixin\<close>

text \<open>\<open>intrusive_ref_counter() noexcept = default\<close>, with the member initialiser \<open>ref_count{0}\<close>.\<close>

definition ref_counter_ctor :: intrusive_ref_counter where
  "ref_counter_ctor = \<lparr>ref_count = 0\<rparr>"

text \<open>\<open>intrusive_ref_counter(const intrusive_ref_counter& v) noexcept : ref_count(0) {}\<close>\<close>

definition ref_counter_copy_ctor :: "'z intrusive_ref_counter_scheme \<Rightarrow> intrusive_ref_counter" where
  "ref_counter_copy_ctor v = \<lparr>ref_count = 0\<rparr>"

text \<open>\<open>operator=(const intrusive_ref_counter& v) noexcept { return *this; }\<close>\<close>

definition ref_counter_copy_assign ::
  "'z intrusive_ref_counter_scheme \<Rightarrow> 'y intrusive_ref_counter_scheme \<Rightarrow> 'z intrusive_ref_counter_scheme" where
  "ref_counter_copy_assign this v = this"

text \<open>
  \<open>use_count()\<close>: \<open>static_cast<unsigned int>(ref_count.load(relaxed))\<close>. The cast keeps
  the low 32 bits of the 64-bit counter.
\<close>

definition use_count :: "'z intrusive_ref_counter_scheme \<Rightarrow> unsigned_int" where
  "use_count c = ucast (ref_count c)"

text \<open>
  The copy operations C++ defines implicitly for a class derived from the mixin: the base
  subobject goes through the mixin's own copy operation, the members are copied one by one.
\<close>

definition derived_copy_ctor :: "'a derived \<Rightarrow> 'a derived" where
  "derived_copy_ctor src =
     \<lparr>ref_count = ref_count (ref_counter_copy_ctor src), payload = payload src\<rparr>"

definition derived_copy_assign :: "'a derived \<Rightarrow> 'a derived \<Rightarrow> 'a derived" where
  "derived_copy_assign this src = (ref_counter_copy_assign this src)\<lparr>payload := payload src\<rparr>"

subsection \<open>The counting protocol\<close>

text \<open>
  \<open>intrusive_ptr_add_ref(p)\<close>: \<open>p->ref_count.fetch_add(1, relaxed)\<close>. The function does not
  test \<open>p\<close>.
\<close>

definition intrusive_ptr_add_ref :: "addr \<Rightarrow> 'z state \<Rightarrow> error + 'z state" where
  "intrusive_ptr_add_ref p s =
     (if p = nullptr then Inl Null_dereference
      else case heap s p of
             None \<Rightarrow> Inl Use_after_free
           | Some c \<Rightarrow> Inr (s\<lparr>heap := (heap s)(p \<mapsto> c\<lparr>ref_count := ref_count c + 1\<rparr>)\<rparr>))"

text \<open>
  \<open>intrusive_ptr_release(p)\<close> is three separate actions on the shared object, and another
  thread can run between any two of them:
  \<^enum> \<open>p->ref_count.fetch_sub(1, acq_rel)\<close>, whose return value is discarded;
  \<^enum> \<open>p->use_count()\<close>, a second, relaxed load of the counter, cut to \<open>unsigned int\<close>;
  \<^enum> \<open>delete p\<close>, when that load gave zero, on \<open>p\<close> of type
    \<open>const intrusive_ref_counter<Derived>*\<close>.
\<close>

definition fetch_sub_ref :: "addr \<Rightarrow> 'z state \<Rightarrow> error + 'z state" where
  "fetch_sub_ref p s =
     (if p = nullptr then Inl Null_dereference
      else case heap s p of
             None \<Rightarrow> Inl Use_after_free
           | Some c \<Rightarrow> Inr (s\<lparr>heap := (heap s)(p \<mapsto> c\<lparr>ref_count := ref_count c - 1\<rparr>)\<rparr>))"

definition load_use_count :: "addr \<Rightarrow> 'z state \<Rightarrow> error + unsigned_int" where
  "load_use_count p s =
     (if p = nullptr then Inl Null_dereference
      else case heap s p of
             None \<Rightarrow> Inl Use_after_free
           | Some c \<Rightarrow> Inr (use_count c))"

text \<open>
  \<open>delete p\<close> through a pointer of static type \<open>t\<close>: on a null pointer it does nothing; on
  a live object it runs the destructor and frees the storage; on anything else it is a
  second delete.
\<close>

definition delete_obj :: "static_type \<Rightarrow> addr \<Rightarrow> 'z state \<Rightarrow> error + 'z state" where
  "delete_obj t p s =
     (if p = nullptr then Inr s
      else case heap s p of
             None \<Rightarrow> Inl Double_delete
           | Some c \<Rightarrow> Inr (s\<lparr>heap := (heap s)(p := None), deleted := deleted s @ [(p, t)]\<rparr>))"

definition intrusive_ptr_release :: "addr \<Rightarrow> 'z state \<Rightarrow> error + 'z state" where
  "intrusive_ptr_release p s =
     and_then (fetch_sub_ref p s) (\<lambda>s1.
     and_then (load_use_count p s1) (\<lambda>n.
       if n = 0 then delete_obj Static_mixin p s1 else Inr s1))"

subsection \<open>The owning handle\<close>

text \<open>\<open>intrusive_ptr() noexcept = default\<close>: the handle at place \<open>h\<close> starts with \<open>ptr{nullptr}\<close>.\<close>

definition ctor_default :: "hid \<Rightarrow> 'z state \<Rightarrow> error + 'z state" where
  "ctor_default h s = Inr (s\<lparr>handles := (handles s)(h \<mapsto> \<lparr>ptr = nullptr\<rparr>)\<rparr>)"

text \<open>
  \<open>intrusive_ptr(T* p, bool add_ref = true) : ptr(p) { if (add_ref) intrusive_ptr_add_ref(ptr); }\<close>
\<close>

definition ctor_raw :: "hid \<Rightarrow> addr \<Rightarrow> bool \<Rightarrow> 'z state \<Rightarrow> error + 'z state" where
  "ctor_raw h p add_ref s =
     (let s1 = s\<lparr>handles := (handles s)(h \<mapsto> \<lparr>ptr = p\<rparr>)\<rparr>
      in if add_ref then intrusive_ptr_add_ref p s1 else Inr s1)"

text \<open>
  \<open>intrusive_ptr(intrusive_ptr const& r) : ptr(r.ptr) { if (ptr != nullptr) intrusive_ptr_add_ref(ptr); }\<close>
\<close>

definition ctor_copy :: "hid \<Rightarrow> hid \<Rightarrow> 'z state \<Rightarrow> error + 'z state" where
  "ctor_copy h r s =
     (case handles s r of
        None \<Rightarrow> Inl Dead_handle
      | Some x \<Rightarrow>
          (let s1 = s\<lparr>handles := (handles s)(h \<mapsto> \<lparr>ptr = ptr x\<rparr>)\<rparr>
           in if ptr x \<noteq> nullptr then intrusive_ptr_add_ref (ptr x) s1 else Inr s1))"

text \<open>\<open>intrusive_ptr(intrusive_ptr&& r) : ptr(r.ptr) { r.ptr = nullptr; }\<close>\<close>

definition ctor_move :: "hid \<Rightarrow> hid \<Rightarrow> 'z state \<Rightarrow> error + 'z state" where
  "ctor_move h r s =
     (case handles s r of
        None \<Rightarrow> Inl Dead_handle
      | Some x \<Rightarrow>
          Inr (s\<lparr>handles := ((handles s)(h \<mapsto> \<lparr>ptr = ptr x\<rparr>))(r \<mapsto> \<lparr>ptr = nullptr\<rparr>)\<rparr>))"

text \<open>
  \<open>~intrusive_ptr() { if (ptr != nullptr) intrusive_ptr_release(ptr); }\<close>, after which the
  handle object is gone.
\<close>

definition dtor :: "hid \<Rightarrow> 'z state \<Rightarrow> error + 'z state" where
  "dtor h s =
     (case handles s h of
        None \<Rightarrow> Inl Dead_handle
      | Some x \<Rightarrow>
          and_then (if ptr x \<noteq> nullptr then intrusive_ptr_release (ptr x) s else Inr s)
            (\<lambda>s1. Inr (s1\<lparr>handles := (handles s1)(h := None)\<rparr>)))"

text \<open>\<open>void swap(intrusive_ptr& b) noexcept { std::swap(ptr, b.ptr); }\<close>\<close>

definition swap :: "hid \<Rightarrow> hid \<Rightarrow> 'z state \<Rightarrow> error + 'z state" where
  "swap a b s =
     (case handles s a of
        None \<Rightarrow> Inl Dead_handle
      | Some x \<Rightarrow>
          (case handles s b of
             None \<Rightarrow> Inl Dead_handle
           | Some y \<Rightarrow>
               Inr (s\<lparr>handles := ((handles s)(a \<mapsto> \<lparr>ptr = ptr y\<rparr>))(b \<mapsto> \<lparr>ptr = ptr x\<rparr>)\<rparr>)))"

text \<open>\<open>operator=(intrusive_ptr const& r) { intrusive_ptr(r).swap(*this); return *this; }\<close>\<close>

definition copy_assign :: "hid \<Rightarrow> hid \<Rightarrow> 'z state \<Rightarrow> error + 'z state" where
  "copy_assign this r s =
     and_then (ctor_copy Tmp r s) (\<lambda>s1.
     and_then (swap Tmp this s1) (dtor Tmp))"

text \<open>\<open>operator=(T* r) { intrusive_ptr(r).swap(*this); return *this; }\<close>\<close>

definition raw_assign :: "hid \<Rightarrow> addr \<Rightarrow> 'z state \<Rightarrow> error + 'z state" where
  "raw_assign this p s =
     and_then (ctor_raw Tmp p True s) (\<lambda>s1.
     and_then (swap Tmp this s1) (dtor Tmp))"

text \<open>\<open>operator=(intrusive_ptr&& r) { intrusive_ptr(std::move(r)).swap(*this); return *this; }\<close>\<close>

definition move_assign :: "hid \<Rightarrow> hid \<Rightarrow> 'z state \<Rightarrow> error + 'z state" where
  "move_assign this r s =
     and_then (ctor_move Tmp r s) (\<lambda>s1.
     and_then (swap Tmp this s1) (dtor Tmp))"

text \<open>\<open>void reset() { intrusive_ptr().swap(*this); }\<close>\<close>

definition reset :: "hid \<Rightarrow> 'z state \<Rightarrow> error + 'z state" where
  "reset this s =
     and_then (ctor_default Tmp s) (\<lambda>s1.
     and_then (swap Tmp this s1) (dtor Tmp))"

text \<open>
  \<open>void reset(T* r) { intrusive_ptr(r).swap(*this); }\<close> and
  \<open>void reset(T* r, bool add_ref) { intrusive_ptr(r, add_ref).swap(*this); }\<close>
\<close>

definition reset_raw :: "hid \<Rightarrow> addr \<Rightarrow> bool \<Rightarrow> 'z state \<Rightarrow> error + 'z state" where
  "reset_raw this p add_ref s =
     and_then (ctor_raw Tmp p add_ref s) (\<lambda>s1.
     and_then (swap Tmp this s1) (dtor Tmp))"

text \<open>\<open>T* get() const noexcept { return ptr; }\<close>\<close>

definition get :: "hid \<Rightarrow> 'z state \<Rightarrow> error + addr" where
  "get h s = (case handles s h of None \<Rightarrow> Inl Dead_handle | Some x \<Rightarrow> Inr (ptr x))"

text \<open>\<open>explicit operator bool() const noexcept { return get() != nullptr; }\<close>\<close>

definition operator_bool :: "hid \<Rightarrow> 'z state \<Rightarrow> error + bool" where
  "operator_bool h s = and_then (get h s) (\<lambda>p. Inr (p \<noteq> nullptr))"

text \<open>\<open>T* detach() noexcept { T* res = ptr; ptr = nullptr; return res; }\<close>\<close>

definition detach :: "hid \<Rightarrow> 'z state \<Rightarrow> error + (addr \<times> 'z state)" where
  "detach h s =
     (case handles s h of
        None \<Rightarrow> Inl Dead_handle
      | Some x \<Rightarrow> Inr (ptr x, s\<lparr>handles := (handles s)(h \<mapsto> \<lparr>ptr = nullptr\<rparr>)\<rparr>))"

subsection \<open>Threads running the release\<close>

text \<open>
  A thread inside \<open>intrusive_ptr_release(p)\<close> stands before one of its three actions, or
  has returned. \<open>release_step\<close> runs the action the thread stands before, as one atomic
  step on the shared state.
\<close>

datatype release_pc = At_fetch_sub | At_load | At_delete | Returned

fun release_step :: "addr \<Rightarrow> release_pc \<Rightarrow> 'z state \<Rightarrow> error + (release_pc \<times> 'z state)" where
  "release_step p At_fetch_sub s = and_then (fetch_sub_ref p s) (\<lambda>s1. Inr (At_load, s1))"
| "release_step p At_load s =
     and_then (load_use_count p s) (\<lambda>n. Inr (if n = 0 then At_delete else Returned, s))"
| "release_step p At_delete s = and_then (delete_obj Static_mixin p s) (\<lambda>s1. Inr (Returned, s1))"
| "release_step p Returned s = Inr (Returned, s)"

text \<open>
  Several threads release the same object \<open>p\<close>, each for a handle of its own. A schedule
  lists which thread takes the next step; \<open>pcs ! t\<close> is where thread \<open>t\<close> stands. A
  thread number beyond the last thread takes no step.
\<close>

fun run_schedule ::
  "addr \<Rightarrow> nat list \<Rightarrow> release_pc list \<Rightarrow> 'z state \<Rightarrow> error + (release_pc list \<times> 'z state)" where
  "run_schedule p [] pcs s = Inr (pcs, s)"
| "run_schedule p (t # ts) pcs s =
     (if t < length pcs
      then and_then (release_step p (pcs ! t) s) (\<lambda>(pc, s1). run_schedule p ts (pcs[t := pc]) s1)
      else run_schedule p ts pcs s)"

subsection \<open>Scenarios\<close>

text \<open>
  \<open>k\<close> copies of the handle at \<open>src\<close>, made one after the other into the variables
  \<open>Var base\<close>, \<open>Var (base + 1)\<close>, ...
\<close>

fun copy_n :: "hid \<Rightarrow> nat \<Rightarrow> nat \<Rightarrow> 'z state \<Rightarrow> error + 'z state" where
  "copy_n src base 0 s = Inr s"
| "copy_n src base (Suc k) s = and_then (ctor_copy (Var base) src s) (copy_n src (Suc base) k)"

text \<open>The handles at the places \<open>hs\<close> are destroyed one after the other, in the order of the list.\<close>

fun dtor_all :: "hid list \<Rightarrow> 'z state \<Rightarrow> error + 'z state" where
  "dtor_all [] s = Inr s"
| "dtor_all (h # hs) s = and_then (dtor h s) (dtor_all hs)"

text \<open>\<open>new T\<close> gave address 1: one counted object, just constructed, and no handle yet.\<close>

definition fresh_object :: "unit state" where
  "fresh_object = \<lparr>handles = Map.empty, heap = [1 \<mapsto> ref_counter_ctor], deleted = []\<rparr>"

text \<open>The same with an object of a derived class that has a member of its own.\<close>

definition fresh_derived :: "(string, unit) derived_ext state" where
  "fresh_derived =
     \<lparr>handles = Map.empty, heap = [1 \<mapsto> \<lparr>ref_count = 0, payload = ''data''\<rparr>], deleted = []\<rparr>"

text \<open>One handle owns the object at address 1.\<close>

definition sole_owner :: "unit state" where
  "sole_owner =
     \<lparr>handles = [Var 0 \<mapsto> \<lparr>ptr = 1\<rparr>], heap = [1 \<mapsto> \<lparr>ref_count = 1\<rparr>], deleted = []\<rparr>"

text \<open>Two handles share the object at address 1.\<close>

definition shared_by_two :: "unit state" where
  "shared_by_two =
     \<lparr>handles = [Var 0 \<mapsto> \<lparr>ptr = 1\<rparr>, Var 1 \<mapsto> \<lparr>ptr = 1\<rparr>],
      heap = [1 \<mapsto> \<lparr>ref_count = 2\<rparr>], deleted = []\<rparr>"


section \<open>Properties\<close>

subsection \<open>Basic facts\<close>

lemma and_then_Inr [simp]: "and_then (Inr x) f = f x"
  by (simp add: and_then_def)

lemma and_then_Inl [simp]: "and_then (Inl e) f = Inl e"
  by (simp add: and_then_def)

lemmas op_defs =
  ctor_raw_def ctor_copy_def ctor_move_def ctor_default_def dtor_def swap_def
  copy_assign_def move_assign_def raw_assign_def reset_def reset_raw_def detach_def get_def
  operator_bool_def intrusive_ptr_add_ref_def intrusive_ptr_release_def fetch_sub_ref_def
  load_use_count_def delete_obj_def use_count_def ref_counter_ctor_def

lemma state_handles_same: "hs = handles s \<Longrightarrow> s\<lparr>handles := hs\<rparr> = s"
  by simp

lemma add_ref_live:
  assumes "p \<noteq> nullptr" and "heap s p = Some c"
  shows "intrusive_ptr_add_ref p s =
         Inr (s\<lparr>heap := (heap s)(p \<mapsto> c\<lparr>ref_count := ref_count c + 1\<rparr>)\<rparr>)"
  using assms by (simp add: intrusive_ptr_add_ref_def)

text \<open>A release whose re-read of the counter is not zero only decrements.\<close>

lemma release_keeps:
  assumes "p \<noteq> nullptr" and "heap s p = Some c"
    and "use_count (c\<lparr>ref_count := ref_count c - 1\<rparr>) \<noteq> 0"
  shows "intrusive_ptr_release p s =
         Inr (s\<lparr>heap := (heap s)(p \<mapsto> c\<lparr>ref_count := ref_count c - 1\<rparr>)\<rparr>)"
  using assms by (simp add: intrusive_ptr_release_def fetch_sub_ref_def load_use_count_def)

text \<open>A release whose re-read of the counter is zero deletes, through the mixin-typed pointer.\<close>

lemma release_deletes:
  assumes "p \<noteq> nullptr" and "heap s p = Some c"
    and "use_count (c\<lparr>ref_count := ref_count c - 1\<rparr>) = 0"
  shows "intrusive_ptr_release p s =
         Inr (s\<lparr>heap := (heap s)(p := None), deleted := deleted s @ [(p, Static_mixin)]\<rparr>)"
  using assms
  by (simp add: intrusive_ptr_release_def fetch_sub_ref_def load_use_count_def delete_obj_def)

text \<open>A release touches no handle and no object but its own.\<close>

lemma release_frame:
  assumes "intrusive_ptr_release q s = Inr s'"
  shows "handles s' = handles s \<and> (\<forall>p. p \<noteq> q \<longrightarrow> heap s' p = heap s p)"
  using assms
  by (auto simp: intrusive_ptr_release_def fetch_sub_ref_def load_use_count_def delete_obj_def
      and_then_def split: if_splits option.splits sum.splits)

lemma release_live:
  assumes "q \<noteq> nullptr" and "heap s q \<noteq> None"
  shows "\<exists>s'. intrusive_ptr_release q s = Inr s'"
  using assms
  by (auto simp: intrusive_ptr_release_def fetch_sub_ref_def load_use_count_def delete_obj_def)

text \<open>One thread that takes its three steps in a row runs \<open>intrusive_ptr_release\<close>.\<close>

lemma run_schedule_alone:
  "run_schedule p [0, 0, 0] [At_fetch_sub] s =
   and_then (intrusive_ptr_release p s) (\<lambda>s'. Inr ([Returned], s'))"
  by (auto simp add: intrusive_ptr_release_def and_then_def split: sum.splits)

text \<open>The cast in \<open>use_count()\<close> keeps a count modulo \<open>2 ^ 32\<close>.\<close>

lemma ucast_of_nat_down: "(ucast (of_nat n :: 64 word) :: 32 word) = of_nat n"
  by (simp add: unsigned_of_nat word_of_nat_eq_iff)

lemma use_count_of_nat: "ref_count c = of_nat n \<Longrightarrow> use_count c = of_nat n"
  by (simp add: use_count_def ucast_of_nat_down)

lemma use_count_small:
  "ref_count c = of_nat n \<Longrightarrow> 0 < n \<Longrightarrow> n < 2 ^ 32 \<Longrightarrow> use_count c \<noteq> 0"
  by (auto simp add: use_count_of_nat word_of_nat_eq_0_iff dest: dvd_imp_le)

text \<open>The example states are what the constructors build from a fresh object.\<close>

lemma sole_owner_built: "ctor_raw (Var 0) 1 True fresh_object = Inr sole_owner"
  by (simp add: fresh_object_def sole_owner_def op_defs)

lemma shared_by_two_built: "ctor_copy (Var 1) (Var 0) sole_owner = Inr shared_by_two"
  by (simp add: sole_owner_def shared_by_two_def op_defs fun_upd_twist)

subsection \<open>C8: the counter is never copied\<close>

text \<open>
  Claim C8. Copy-constructing or copy-assigning a counted object never copies the counter.
  The mixin's copy constructor sets the new object's counter to zero whatever the source
  holds, so \<open>use_count()\<close> of a copy is zero; its copy assignment leaves the target's own
  counter as it was, whatever the source holds. The same holds for a class derived from
  the mixin, whose members are copied while the counter is not.
\<close>

theorem counter_excluded_from_copy:
  "ref_count (ref_counter_copy_ctor v) = 0
   \<and> use_count (ref_counter_copy_ctor v) = 0
   \<and> ref_count (ref_counter_copy_assign this v) = ref_count this
   \<and> ref_count (derived_copy_ctor src) = 0
   \<and> payload (derived_copy_ctor src) = payload src
   \<and> ref_count (derived_copy_assign dst src) = ref_count dst
   \<and> payload (derived_copy_assign dst src) = payload src"
  by (simp add: ref_counter_copy_ctor_def ref_counter_copy_assign_def use_count_def
      derived_copy_ctor_def derived_copy_assign_def)

subsection \<open>C3: construction from a null address\<close>

text \<open>
  The default constructor, and the raw-pointer constructor told not to add a reference,
  build a null handle and touch no object.
\<close>

lemma null_construction_without_add_ref:
  "ctor_default h s = Inr (s\<lparr>handles := (handles s)(h \<mapsto> \<lparr>ptr = nullptr\<rparr>)\<rparr>)
   \<and> ctor_raw h nullptr False s = ctor_default h s
   \<and> and_then (ctor_default h s) (get h) = Inr nullptr
   \<and> and_then (ctor_default h s) (operator_bool h) = Inr False"
  by (simp add: ctor_default_def ctor_raw_def get_def operator_bool_def)

text \<open>
  Claim C3. A handle constructed from a null address, also through the raw-pointer
  constructor with its default \<open>add_ref = true\<close>, takes no ownership and performs no
  increment. In the code that constructor calls \<open>intrusive_ptr_add_ref(ptr)\<close> without
  testing \<open>ptr\<close>, unlike the copy constructor and the destructor: on a null address the
  increment goes through the null pointer, in every state.
\<close>

theorem raw_ctor_null_default_dereferences:
  "ctor_raw h nullptr True s = Inl Null_dereference"
  by (simp add: ctor_raw_def intrusive_ptr_add_ref_def)

subsection \<open>C4: which object the destroy step names\<close>

text \<open>
  Claim C4. The destroy step of the release targets the full, most-derived pointee. In
  the code \<open>delete p\<close> runs on \<open>p\<close> of type \<open>const intrusive_ref_counter<Derived>*\<close>, and
  the mixin's destructor is not virtual: wrapping a fresh object of a derived class in a
  handle and dropping the handle deletes it through the mixin-typed pointer.
\<close>

theorem release_deletes_through_mixin_pointer:
  "and_then (ctor_raw (Var 0) 1 True fresh_derived) (dtor (Var 0)) =
   Inr \<lparr>handles = Map.empty, heap = Map.empty, deleted = [(1, Static_mixin)]\<rparr>"
  by (simp add: fresh_derived_def op_defs)

subsection \<open>C1: the destructor runs once, after the last handle\<close>

text \<open>
  What the release gets right: the sequential case with a count below \<open>2 ^ 32\<close>.
\<close>

lemma of_nat_pred_word: "0 < n \<Longrightarrow> (of_nat n :: 64 word) - 1 = of_nat (n - 1)"
proof -
  assume "0 < n"
  then obtain m where "n = Suc m"
    by (cases n) auto
  then show ?thesis
    by simp
qed

text \<open>Dropping one of several holders only decrements.\<close>

lemma dtor_holder_keeps:
  assumes h: "handles s h = Some \<lparr>ptr = p\<rparr>" and p: "p \<noteq> nullptr" and c: "heap s p = Some c"
    and n: "ref_count c = of_nat n" "1 < n" "n < 2 ^ 32"
  shows "dtor h s =
         Inr (s\<lparr>handles := (handles s)(h := None),
                heap := (heap s)(p \<mapsto> c\<lparr>ref_count := of_nat (n - 1)\<rparr>)\<rparr>)"
proof -
  have "ref_count c - 1 = of_nat (n - 1)"
    using n(2) by (simp only: n(1) of_nat_pred_word)
  then have dec: "c\<lparr>ref_count := ref_count c - 1\<rparr> = c\<lparr>ref_count := of_nat (n - 1)\<rparr>"
    by simp
  have "use_count (c\<lparr>ref_count := of_nat (n - 1)\<rparr>) \<noteq> 0"
    using n by (intro use_count_small [of _ "n - 1"]) auto
  with release_keeps [OF p c] dec h p show ?thesis
    by (simp add: dtor_def)
qed

text \<open>Dropping the only holder deletes the object.\<close>

lemma dtor_holder_last:
  assumes h: "handles s h = Some \<lparr>ptr = p\<rparr>" and p: "p \<noteq> nullptr" and c: "heap s p = Some c"
    and n: "ref_count c = 1"
  shows "dtor h s =
         Inr (s\<lparr>handles := (handles s)(h := None), heap := (heap s)(p := None),
                deleted := deleted s @ [(p, Static_mixin)]\<rparr>)"
proof -
  have "use_count (c\<lparr>ref_count := ref_count c - 1\<rparr>) = 0"
    using n by (simp add: use_count_def)
  with release_deletes [OF p c] h p show ?thesis
    by (simp add: dtor_def)
qed

lemma dtor_all_append:
  "dtor_all (hs @ ks) s = and_then (dtor_all hs s) (dtor_all ks)"
  by (induction hs arbitrary: s) (auto simp: and_then_def split: sum.splits)

lemma restrict_drop_Cons:
  "((m :: hid \<rightharpoonup> intrusive_ptr)(h := None)) |` (- set hs) = m |` (- set (h # hs))"
  by (rule ext) (simp add: restrict_map_def)

lemma restrict_drop_snoc:
  "((m :: hid \<rightharpoonup> intrusive_ptr) |` (- set hs))(h := None) = m |` (- set (hs @ [h]))"
  by (rule ext) (simp add: restrict_map_def)

text \<open>
  While fewer handles have been dropped than the counter counts, the object is alive and
  nothing has been deleted.
\<close>

lemma dtor_all_keeps:
  assumes "distinct hs" and "\<forall>h\<in>set hs. handles s h = Some \<lparr>ptr = p\<rparr>" and "p \<noteq> nullptr"
    and "heap s p = Some c" and "ref_count c = of_nat n" and "length hs < n" and "n < 2 ^ 32"
  shows "dtor_all hs s =
         Inr (s\<lparr>handles := handles s |` (- set hs),
                heap := (heap s)(p \<mapsto> c\<lparr>ref_count := of_nat (n - length hs)\<rparr>)\<rparr>)"
  using assms
proof (induction hs arbitrary: s c n)
  case Nil
  have "c\<lparr>ref_count := of_nat n\<rparr> = c"
    using Nil.prems by simp
  then show ?case
    using Nil.prems by (simp add: map_upd_triv)
next
  case (Cons h hs)
  define m1 where "m1 = (handles s)(h := None)"
  define m2 where "m2 = handles s |` (- set (h # hs))"
  have m: "m1 |` (- set hs) = m2"
    unfolding m1_def m2_def by (rule restrict_drop_Cons)
  let ?c1 = "c\<lparr>ref_count := of_nat (n - 1)\<rparr>"
  let ?s1 = "s\<lparr>handles := m1, heap := (heap s)(p \<mapsto> ?c1)\<rparr>"
  have step: "dtor h s = Inr ?s1"
    unfolding m1_def using Cons.prems by (intro dtor_holder_keeps) auto
  have hold1: "\<forall>k\<in>set hs. handles ?s1 k = Some \<lparr>ptr = p\<rparr>"
    unfolding m1_def using Cons.prems(1,2) by auto
  have "dtor_all hs ?s1 =
      Inr (?s1\<lparr>handles := handles ?s1 |` (- set hs),
                heap := (heap ?s1)(p \<mapsto> ?c1\<lparr>ref_count := of_nat (n - 1 - length hs)\<rparr>)\<rparr>)"
  proof (rule Cons.IH [OF _ hold1 Cons.prems(3)])
    show "distinct hs" using Cons.prems(1) by simp
    show "heap ?s1 p = Some ?c1" by simp
    show "ref_count ?c1 = of_nat (n - 1)" by simp
    show "length hs < n - 1" using Cons.prems(6) by simp
    show "n - 1 < 2 ^ 32" using Cons.prems(7) by simp
  qed
  also have "?s1\<lparr>handles := handles ?s1 |` (- set hs),
                heap := (heap ?s1)(p \<mapsto> ?c1\<lparr>ref_count := of_nat (n - 1 - length hs)\<rparr>)\<rparr> =
      s\<lparr>handles := m2,
        heap := (heap s)(p \<mapsto> c\<lparr>ref_count := of_nat (n - length (h # hs))\<rparr>)\<rparr>"
    by (simp add: m)
  finally have "dtor_all hs ?s1 = Inr (s\<lparr>handles := m2,
        heap := (heap s)(p \<mapsto> c\<lparr>ref_count := of_nat (n - length (h # hs))\<rparr>)\<rparr>)" .
  then have "dtor_all (h # hs) s = Inr (s\<lparr>handles := m2,
        heap := (heap s)(p \<mapsto> c\<lparr>ref_count := of_nat (n - length (h # hs))\<rparr>)\<rparr>)"
    using step by simp
  then show ?case
    unfolding m2_def .
qed

text \<open>
  One thread, fewer than \<open>2 ^ 32\<close> handles, each holding a unit of its own: dropping
  them all, in the order of any list without repetition, deletes the object once, at the
  last drop.
\<close>

lemma sequential_drops_delete_once:
  assumes d: "distinct (hs @ [h])"
    and hold: "\<forall>k\<in>set (hs @ [h]). handles s k = Some \<lparr>ptr = p\<rparr>" and p: "p \<noteq> nullptr"
    and c: "heap s p = Some c"
    and n: "ref_count c = of_nat (length (hs @ [h]))" "length (hs @ [h]) < 2 ^ 32"
  shows "dtor_all (hs @ [h]) s =
         Inr (s\<lparr>handles := handles s |` (- set (hs @ [h])), heap := (heap s)(p := None),
                deleted := deleted s @ [(p, Static_mixin)]\<rparr>)"
proof -
  define m1 where "m1 = handles s |` (- set hs)"
  define m2 where "m2 = handles s |` (- set (hs @ [h]))"
  have m: "m1(h := None) = m2"
    unfolding m1_def m2_def by (rule restrict_drop_snoc)
  let ?c1 = "c\<lparr>ref_count := 1\<rparr>"
  let ?s1 = "s\<lparr>handles := m1, heap := (heap s)(p \<mapsto> ?c1)\<rparr>"
  have "dtor_all hs s =
        Inr (s\<lparr>handles := handles s |` (- set hs),
               heap := (heap s)(p \<mapsto> c\<lparr>ref_count := of_nat (Suc (length hs) - length hs)\<rparr>)\<rparr>)"
  proof (rule dtor_all_keeps [OF _ _ p c])
    show "distinct hs" using d by simp
    show "\<forall>k\<in>set hs. handles s k = Some \<lparr>ptr = p\<rparr>" using hold by simp
    show "ref_count c = of_nat (Suc (length hs))" using n(1) by simp
    show "length hs < Suc (length hs)" by simp
    show "Suc (length hs) < 2 ^ 32" using n(2) by simp
  qed
  then have first: "dtor_all hs s = Inr ?s1"
    unfolding m1_def by simp
  have "h \<notin> set hs"
    using d by simp
  then have lasth: "handles ?s1 h = Some \<lparr>ptr = p\<rparr>"
    unfolding m1_def using hold by simp
  have "dtor h ?s1 =
      Inr (?s1\<lparr>handles := (handles ?s1)(h := None), heap := (heap ?s1)(p := None),
                deleted := deleted ?s1 @ [(p, Static_mixin)]\<rparr>)"
    using lasth p by (intro dtor_holder_last) auto
  also have "?s1\<lparr>handles := (handles ?s1)(h := None), heap := (heap ?s1)(p := None),
                deleted := deleted ?s1 @ [(p, Static_mixin)]\<rparr> =
      s\<lparr>handles := m2, heap := (heap s)(p := None),
                deleted := deleted s @ [(p, Static_mixin)]\<rparr>"
    by (simp add: m)
  finally have final: "dtor h ?s1 = Inr (s\<lparr>handles := m2,
      heap := (heap s)(p := None), deleted := deleted s @ [(p, Static_mixin)]\<rparr>)" .
  have "dtor_all (hs @ [h]) s = Inr (s\<lparr>handles := m2,
      heap := (heap s)(p := None), deleted := deleted s @ [(p, Static_mixin)]\<rparr>)"
    using first final by (simp add: dtor_all_append)
  then show ?thesis
    unfolding m2_def .
qed

text \<open>
  Without threads the release is wrong once the count does not fit 32 bits: at a count
  of \<open>2 ^ 32 + 1\<close> the first release leaves \<open>2 ^ 32\<close>, \<open>use_count()\<close> reads that as
  zero, and the object is deleted under the handles that still hold it.
\<close>

lemma release_truncated_count_deletes:
  "intrusive_ptr_release 1 (sole_owner\<lparr>heap := [1 \<mapsto> \<lparr>ref_count = 2 ^ 32 + 1\<rparr>]\<rparr>) =
   Inr (sole_owner\<lparr>heap := Map.empty, deleted := [(1, Static_mixin)]\<rparr>)"
  by (simp add: sole_owner_def op_defs)

text \<open>
  Claim C1. For a pointee wrapped by N handles, the destructor runs exactly once, after
  the last handle is gone, never while a handle holds a unit and never twice. The code
  discards what \<open>fetch_sub\<close> returns and reads the counter again. Two threads drop the
  two handles of \<open>shared_by_two\<close>; each step of the schedule is one action of the source:
  thread 0 subtracts, thread 1 subtracts, thread 0 reads zero, thread 1 reads zero,
  thread 0 deletes. Thread 1 then stands before its own \<open>delete p\<close> of the object that is
  already destroyed, and its next step is the second delete.
\<close>

theorem release_race_double_delete:
  "run_schedule 1 [0, 1, 0, 1, 0] [At_fetch_sub, At_fetch_sub] shared_by_two =
     Inr ([Returned, At_delete],
          shared_by_two\<lparr>heap := Map.empty, deleted := [(1, Static_mixin)]\<rparr>)
   \<and> run_schedule 1 [0, 1, 0, 1, 0, 1] [At_fetch_sub, At_fetch_sub] shared_by_two =
     Inl Double_delete"
  by (simp add: shared_by_two_def fetch_sub_ref_def load_use_count_def delete_obj_def
      use_count_def)

subsection \<open>C2: copy, then drop the copy\<close>

text \<open>
  The copy constructor at a live pointee, and at a null source; the destructor of the
  copy when the source's unit is still visible to \<open>use_count()\<close>, and on a null copy.
\<close>

lemma intrusive_ptr_eta: "\<lparr>ptr = ptr x\<rparr> = x"
  by (cases x) simp

lemma copy_live:
  assumes "handles s h = Some x" and "ptr x \<noteq> nullptr" and "heap s (ptr x) = Some c"
  shows "ctor_copy k h s =
         Inr (s\<lparr>handles := (handles s)(k \<mapsto> x),
                heap := (heap s)(ptr x \<mapsto> c\<lparr>ref_count := ref_count c + 1\<rparr>)\<rparr>)"
  using assms by (simp add: ctor_copy_def add_ref_live intrusive_ptr_eta)

lemma copy_null:
  assumes "handles s h = Some x" and "ptr x = nullptr"
  shows "ctor_copy k h s = Inr (s\<lparr>handles := (handles s)(k \<mapsto> x)\<rparr>)"
  using assms by (cases x) (simp add: ctor_copy_def)

lemma drop_copy_live:
  assumes k: "handles s k = None" and p: "ptr x \<noteq> nullptr"
    and c: "heap s (ptr x) = Some c" and u: "use_count c \<noteq> 0"
  shows "dtor k (s\<lparr>handles := (handles s)(k \<mapsto> x),
                   heap := (heap s)(ptr x \<mapsto> c\<lparr>ref_count := ref_count c + 1\<rparr>)\<rparr>) = Inr s"
proof -
  let ?c1 = "c\<lparr>ref_count := ref_count c + 1\<rparr>"
  let ?s1 = "s\<lparr>handles := (handles s)(k \<mapsto> x), heap := (heap s)(ptr x \<mapsto> ?c1)\<rparr>"
  have undo: "?c1\<lparr>ref_count := ref_count ?c1 - 1\<rparr> = c"
    by simp
  have rel: "intrusive_ptr_release (ptr x) ?s1 = Inr (?s1\<lparr>heap := (heap ?s1)(ptr x \<mapsto> c)\<rparr>)"
    using release_keeps [of "ptr x" ?s1 ?c1] p u by (simp add: undo)
  have "dtor k ?s1 = Inr (?s1\<lparr>heap := (heap ?s1)(ptr x \<mapsto> c), handles := (handles s)(k := None)\<rparr>)"
    using p rel by (simp add: dtor_def)
  also have "?s1\<lparr>heap := (heap ?s1)(ptr x \<mapsto> c), handles := (handles s)(k := None)\<rparr> = s"
    using k c by (intro state.equality) (auto simp: map_upd_triv)
  finally show ?thesis .
qed

lemma drop_copy_null:
  assumes "handles s k = None" and "ptr x = nullptr"
  shows "dtor k (s\<lparr>handles := (handles s)(k \<mapsto> x)\<rparr>) = Inr s"
proof -
  have "s\<lparr>handles := (handles s)(k := None)\<rparr> = s"
    using assms by (intro state_handles_same) auto
  with assms show ?thesis
    by (simp add: dtor_def)
qed

lemma swap_same:
  assumes "handles s a = Some x" and "handles s b = Some y" and "ptr x = ptr y"
  shows "swap a b s = Inr s"
proof -
  have "s\<lparr>handles := (handles s)(a \<mapsto> \<lparr>ptr = ptr y\<rparr>, b \<mapsto> \<lparr>ptr = ptr y\<rparr>)\<rparr> = s"
    using assms by (intro state_handles_same) auto
  with assms show ?thesis
    by (simp add: swap_def)
qed

text \<open>
  Claim C2, as the code has it. Let \<open>h\<close> be a handle that is null, or whose pointee is
  alive with \<open>use_count()\<close> not zero, and let \<open>k\<close> be a place where no handle lives.
  Copy-constructing \<open>k\<close> from \<open>h\<close> adds exactly one to the pointee's counter (nothing
  for a null handle) and changes nothing else but \<open>k\<close>; destroying \<open>k\<close> then gives back
  the very state before the copy: same counter, same address in \<open>h\<close>, nothing deleted.
\<close>

theorem copy_then_drop_is_neutral:
  assumes h: "handles s h = Some x" and k: "handles s k = None"
    and unit: "ptr x = nullptr \<or> (\<exists>c. heap s (ptr x) = Some c \<and> use_count c \<noteq> 0)"
  shows "\<exists>s1. ctor_copy k h s = Inr s1
           \<and> handles s1 = (handles s)(k \<mapsto> x)
           \<and> heap s1 =
               (if ptr x = nullptr then heap s
                else (heap s)(ptr x :=
                       map_option (\<lambda>c. c\<lparr>ref_count := ref_count c + 1\<rparr>) (heap s (ptr x))))
           \<and> deleted s1 = deleted s
           \<and> dtor k s1 = Inr s"
proof (cases "ptr x = nullptr")
  case True
  show ?thesis
    using copy_null [OF h True, of k] drop_copy_null [OF k True] True by simp
next
  case False
  then obtain c where c: "heap s (ptr x) = Some c" "use_count c \<noteq> 0"
    using unit by auto
  show ?thesis
    using copy_live [OF h False c(1), of k] drop_copy_live [OF k False c] False c(1) by simp
qed

text \<open>The theorem at a handle that owns an object alone: the copy sees \<open>use_count() = 2\<close>.\<close>

theorem copy_then_drop_is_neutral_witness:
  "handles sole_owner (Var 0) = Some \<lparr>ptr = 1\<rparr> \<and> handles sole_owner (Var 1) = None
   \<and> (\<exists>s1. ctor_copy (Var 1) (Var 0) sole_owner = Inr s1
         \<and> map_option use_count (heap s1 1) = Some 2
         \<and> dtor (Var 1) s1 = Inr sole_owner)"
proof -
  have h: "handles sole_owner (Var 0) = Some \<lparr>ptr = 1\<rparr>"
    and k: "handles sole_owner (Var 1) = None"
    and u: "ptr \<lparr>ptr = 1\<rparr> = nullptr
            \<or> (\<exists>c. heap sole_owner (ptr \<lparr>ptr = 1\<rparr>) = Some c \<and> use_count c \<noteq> 0)"
    by (simp_all add: sole_owner_def use_count_def)
  from copy_then_drop_is_neutral [OF h k u] obtain s1 where
    "ctor_copy (Var 1) (Var 0) sole_owner = Inr s1"
    "heap s1 = (heap sole_owner)(1 := map_option (\<lambda>c. c\<lparr>ref_count := ref_count c + 1\<rparr>) (heap sole_owner 1))"
    "dtor (Var 1) s1 = Inr sole_owner"
    by auto
  then show ?thesis
    using h k by (auto simp: sole_owner_def use_count_def)
qed

text \<open>
  Claim C2 as stated, for every starting count, fails at count zero: a handle that adopted
  a fresh object with \<open>add_ref = false\<close> holds it at count 0; the copy raises the count to
  1, and dropping the copy brings it to zero and deletes the object under the handle.
\<close>

theorem copy_then_drop_at_zero_destroys:
  "and_then (and_then (ctor_raw (Var 0) 1 False fresh_object) (ctor_copy (Var 1) (Var 0)))
     (dtor (Var 1)) =
   Inr \<lparr>handles = [Var 0 \<mapsto> \<lparr>ptr = 1\<rparr>], heap = Map.empty, deleted = [(1, Static_mixin)]\<rparr>"
  by (simp add: fresh_object_def op_defs)

subsection \<open>C7: self copy-assignment\<close>

text \<open>
  Claim C7, as the code has it. For a handle that is null, or whose pointee is alive with
  \<open>use_count()\<close> not zero, \<open>h = h\<close> gives back the very state it started in: the
  temporary copy adds one, the swap exchanges two equal addresses, the temporary's
  destructor subtracts one.
\<close>

theorem self_copy_assign_is_identity:
  assumes h: "handles s (Var i) = Some x" and tmp: "handles s Tmp = None"
    and unit: "ptr x = nullptr \<or> (\<exists>c. heap s (ptr x) = Some c \<and> use_count c \<noteq> 0)"
  shows "copy_assign (Var i) (Var i) s = Inr s"
proof (cases "ptr x = nullptr")
  case True
  let ?s1 = "s\<lparr>handles := (handles s)(Tmp \<mapsto> x)\<rparr>"
  have "swap Tmp (Var i) ?s1 = Inr ?s1"
    using h by (intro swap_same [of _ _ x _ x]) auto
  then show ?thesis
    using copy_null [OF h True, of Tmp] drop_copy_null [OF tmp True]
    by (simp add: copy_assign_def)
next
  case False
  then obtain c where c: "heap s (ptr x) = Some c" "use_count c \<noteq> 0"
    using unit by auto
  let ?s1 = "s\<lparr>handles := (handles s)(Tmp \<mapsto> x),
                heap := (heap s)(ptr x \<mapsto> c\<lparr>ref_count := ref_count c + 1\<rparr>)\<rparr>"
  have "swap Tmp (Var i) ?s1 = Inr ?s1"
    using h by (intro swap_same [of _ _ x _ x]) auto
  then show ?thesis
    using copy_live [OF h False c(1), of Tmp] drop_copy_live [OF tmp False c]
    by (simp add: copy_assign_def)
qed

theorem self_copy_assign_is_identity_witness:
  "handles shared_by_two (Var 1) = Some \<lparr>ptr = 1\<rparr> \<and> handles shared_by_two Tmp = None
   \<and> copy_assign (Var 1) (Var 1) shared_by_two = Inr shared_by_two"
proof -
  have h: "handles shared_by_two (Var 1) = Some \<lparr>ptr = 1\<rparr>"
    and t: "handles shared_by_two Tmp = None"
    and u: "ptr \<lparr>ptr = 1\<rparr> = nullptr
            \<or> (\<exists>c. heap shared_by_two (ptr \<lparr>ptr = 1\<rparr>) = Some c \<and> use_count c \<noteq> 0)"
    by (simp_all add: shared_by_two_def use_count_def)
  from self_copy_assign_is_identity [OF h t u] h t show ?thesis
    by simp
qed

text \<open>
  Claim C7 as stated, for every handle, fails for a handle that adopted a fresh object
  with \<open>add_ref = false\<close>: \<open>h = h\<close> deletes the object and leaves \<open>h\<close> dangling.
\<close>

theorem self_copy_assign_at_zero_destroys:
  "and_then (ctor_raw (Var 0) 1 False fresh_object) (copy_assign (Var 0) (Var 0)) =
   Inr \<lparr>handles = [Var 0 \<mapsto> \<lparr>ptr = 1\<rparr>], heap = Map.empty, deleted = [(1, Static_mixin)]\<rparr>"
  by (simp add: fresh_object_def op_defs)

subsection \<open>C10: self move-assignment\<close>

text \<open>
  Claim C10. For every handle, null or not, \<open>h = std::move(h)\<close> leaves the handle as it
  was: it holds its address, and no counter is touched (the heap is not even read). The
  temporary takes the address and nulls \<open>h\<close>, the swap gives the address back, and the
  temporary dies null.
\<close>

theorem self_move_assign_is_identity:
  assumes "handles s (Var i) = Some x" and "handles s Tmp = None"
  shows "move_assign (Var i) (Var i) s = Inr s"
proof -
  have "s\<lparr>handles := (handles s)(Var i \<mapsto> \<lparr>ptr = ptr x\<rparr>, Tmp := None)\<rparr> = s"
    using assms by (intro state_handles_same) auto
  with assms show ?thesis
    by (simp add: move_assign_def ctor_move_def swap_def dtor_def)
qed

theorem self_move_assign_is_identity_witness:
  "handles sole_owner (Var 0) = Some \<lparr>ptr = 1\<rparr> \<and> handles sole_owner Tmp = None
   \<and> move_assign (Var 0) (Var 0) sole_owner = Inr sole_owner
   \<and> and_then (move_assign (Var 0) (Var 0) sole_owner) (get (Var 0)) = Inr 1"
proof -
  have h: "handles sole_owner (Var 0) = Some \<lparr>ptr = 1\<rparr>"
    and t: "handles sole_owner Tmp = None"
    by (simp_all add: sole_owner_def)
  from self_move_assign_is_identity [OF h t] h t show ?thesis
    by (simp add: get_def)
qed

subsection \<open>C5: moving a handle\<close>







subsection \<open>C6: detach, then adopt\<close>

text \<open>
  Claim C6. \<open>detach()\<close> returns the address, nulls the handle and touches neither a
  counter nor the delete trace. Constructing a handle from that address with
  \<open>add_ref = false\<close> gives, in the same place, the very state before the detach, and in
  any other place a handle with the same address over an unchanged heap.
\<close>

theorem detach_then_adopt_restores:
  assumes "handles s h = Some x"
  shows "\<exists>s1. detach h s = Inr (ptr x, s1)
           \<and> heap s1 = heap s \<and> deleted s1 = deleted s \<and> handles s1 h = Some \<lparr>ptr = nullptr\<rparr>
           \<and> ctor_raw h (ptr x) False s1 = Inr s
           \<and> (\<forall>k. \<exists>s2. ctor_raw k (ptr x) False s1 = Inr s2
                  \<and> handles s2 k = Some x \<and> heap s2 = heap s \<and> deleted s2 = deleted s)"
proof -
  have "s\<lparr>handles := (handles s)(h \<mapsto> x)\<rparr> = s"
    using assms by (intro state_handles_same) auto
  with assms show ?thesis
    by (simp add: detach_def ctor_raw_def intrusive_ptr_eta)
qed

theorem detach_then_adopt_restores_witness:
  "handles shared_by_two (Var 1) = Some \<lparr>ptr = 1\<rparr>
   \<and> (\<exists>s1. detach (Var 1) shared_by_two = Inr (1, s1)
         \<and> heap s1 = heap shared_by_two \<and> handles s1 (Var 1) = Some \<lparr>ptr = nullptr\<rparr>
         \<and> ctor_raw (Var 1) 1 False s1 = Inr shared_by_two)"
proof -
  have h: "handles shared_by_two (Var 1) = Some \<lparr>ptr = 1\<rparr>"
    by (simp add: shared_by_two_def)
  from detach_then_adopt_restores [OF h] h show ?thesis
    by auto
qed

subsection \<open>C9: use\_count after k copies\<close>

text \<open>Each copy adds one to the counter of the source's pointee.\<close>

lemma copy_n_count:
  assumes "handles s src = Some x" and "ptr x \<noteq> nullptr" and "heap s (ptr x) = Some c"
  shows "\<exists>s'. copy_n src base k s = Inr s' \<and> handles s' src = Some x
           \<and> heap s' (ptr x) = Some (c\<lparr>ref_count := ref_count c + of_nat k\<rparr>)"
  using assms
proof (induction k arbitrary: s c base)
  case 0
  then show ?case by simp
next
  case (Suc k)
  let ?s0 = "s\<lparr>handles := (handles s)(Var base \<mapsto> \<lparr>ptr = ptr x\<rparr>)\<rparr>"
  let ?c1 = "c\<lparr>ref_count := ref_count c + 1\<rparr>"
  let ?s1 = "?s0\<lparr>heap := (heap ?s0)(ptr x \<mapsto> ?c1)\<rparr>"
  have copy: "ctor_copy (Var base) src s = Inr ?s1"
    using Suc.prems by (simp add: ctor_copy_def add_ref_live)
  have "handles ?s1 src = Some x" "heap ?s1 (ptr x) = Some ?c1"
    using Suc.prems by (auto simp: intrusive_ptr_eta)
  from Suc.IH [OF this(1) Suc.prems(2) this(2), of "Suc base"] obtain s' where
    "copy_n src (Suc base) k ?s1 = Inr s'" "handles s' src = Some x"
    "heap s' (ptr x) = Some (?c1\<lparr>ref_count := ref_count ?c1 + of_nat k\<rparr>)"
    by blast
  then show ?case
    using copy by (simp add: add.assoc add.commute)
qed

text \<open>
  Claim C9, as the code has it. A fresh object is wrapped by its first handle and that
  handle is copied \<open>k\<close> times: \<open>use_count()\<close> is then \<open>k + 1\<close>, the owner's unit and one
  for each copy, cut to 32 bits.
\<close>

theorem use_count_after_copies:
  assumes p: "p \<noteq> nullptr" and c: "heap s p = Some c" and fresh: "ref_count c = 0"
  shows "\<exists>s' c'. and_then (ctor_raw h p True s) (copy_n h base k) = Inr s'
           \<and> heap s' p = Some c' \<and> use_count c' = of_nat (k + 1)
           \<and> unat (use_count c') = (k + 1) mod 2 ^ 32"
proof -
  let ?s0 = "s\<lparr>handles := (handles s)(h \<mapsto> \<lparr>ptr = p\<rparr>)\<rparr>"
  let ?c1 = "c\<lparr>ref_count := 1\<rparr>"
  let ?s1 = "?s0\<lparr>heap := (heap ?s0)(p \<mapsto> ?c1)\<rparr>"
  have own: "ctor_raw h p True s = Inr ?s1"
    using p c fresh by (simp add: ctor_raw_def add_ref_live)
  have "handles ?s1 h = Some \<lparr>ptr = p\<rparr>" "ptr \<lparr>ptr = p\<rparr> \<noteq> nullptr"
    "heap ?s1 (ptr \<lparr>ptr = p\<rparr>) = Some ?c1"
    using p by auto
  from copy_n_count [OF this, of base k] obtain s' where
    run: "copy_n h base k ?s1 = Inr s'"
    and cnt: "heap s' p = Some (?c1\<lparr>ref_count := ref_count ?c1 + of_nat k\<rparr>)"
    by auto
  have uc: "use_count (?c1\<lparr>ref_count := ref_count ?c1 + of_nat k\<rparr>) = of_nat (k + 1)"
    by (rule use_count_of_nat) simp
  have "unat (of_nat (k + 1) :: 32 word) = (k + 1) mod 2 ^ 32"
    by (simp only: unat_of_nat) simp
  with own run cnt uc show ?thesis
    by simp
qed

theorem use_count_after_copies_witness:
  "heap fresh_object 1 = Some \<lparr>ref_count = 0\<rparr>
   \<and> (\<exists>s' c'. and_then (ctor_raw (Var 0) 1 True fresh_object) (copy_n (Var 0) 1 3) = Inr s'
         \<and> heap s' 1 = Some c' \<and> use_count c' = 4 \<and> unat (use_count c') = 4)"
proof -
  have p: "(1::nat) \<noteq> nullptr" and c: "heap fresh_object 1 = Some \<lparr>ref_count = 0\<rparr>"
    and z: "ref_count \<lparr>ref_count = 0\<rparr> = 0"
    by (simp_all add: fresh_object_def ref_counter_ctor_def)
  from use_count_after_copies [OF p c z, of "Var 0" 1 3] c show ?thesis
    by auto
qed

text \<open>
  Claim C9 as stated, \<open>use_count() = k\<close>, fails at \<open>k = 1\<close>: the owner and its one copy
  make \<open>use_count() = 2\<close>.
\<close>

theorem one_copy_gives_use_count_two:
  "and_then (and_then (ctor_raw (Var 0) 1 True fresh_object) (copy_n (Var 0) 1 1))
     (load_use_count 1) = Inr 2"
  by (simp add: fresh_object_def op_defs)

end
